theory Spec2Isabelle
  imports Main "HOL-Library.Sublist"
begin

section \<open>Bridge hand holdings: validation and two-mode formatting\<close>

text \<open>
  A shallow embedding of \<^verbatim>\<open>src/dealformater/data.py\<close>. A Python \<^verbatim>\<open>str\<close> is a
  \<^typ>\<open>string\<close>; every character the validators accept is ASCII, and one HOL character
  stands for one Python character. The only text beyond ASCII is in the table
  \<^verbatim>\<open>SUIT_PIPS\<close>, whose four code points U+2660 .. U+2663 are kept as four separate
  entries, each written as its UTF-8 bytes. A raised \<^verbatim>\<open>ValueError\<close> is a value
  \<open>Inl (ValueError msg)\<close>. The constructors catch \<^verbatim>\<open>AttributeError\<close> for arguments
  that are not strings; here the arguments are strings by type.
\<close>

subsection \<open>The string operations of Python that the code calls\<close>

datatype error = ValueError string | IndexError string

definition ascii_lowercase :: string where
  "ascii_lowercase = ''abcdefghijklmnopqrstuvwxyz''"

definition ascii_uppercase :: string where
  "ascii_uppercase = ''ABCDEFGHIJKLMNOPQRSTUVWXYZ''"

text \<open>
  \<^verbatim>\<open>str.upper\<close> on ASCII: the letters a .. z go to A .. Z, every other character
  stays. Python also maps letters beyond ASCII (U+017F goes to \<open>S\<close>); strings with
  such characters are outside this model.
\<close>

definition char_upper :: "char \<Rightarrow> char" where
  "char_upper c =
     (case map_of (zip ascii_lowercase ascii_uppercase) c of
        Some u \<Rightarrow> u
      | None \<Rightarrow> c)"

definition str_upper :: "string \<Rightarrow> string" where
  "str_upper s = map char_upper s"

text \<open>
  \<^verbatim>\<open>s.replace(old, new)\<close> where \<^verbatim>\<open>old\<close> is one character, which is how the code
  calls it: every occurrence of the character becomes \<^verbatim>\<open>new\<close>.
\<close>

definition str_replace :: "string \<Rightarrow> char \<Rightarrow> string \<Rightarrow> string" where
  "str_replace s old new = concat (map (\<lambda>c. if c = old then new else [c]) s)"

text \<open>\<^verbatim>\<open>sub in s\<close> on strings is the substring test.\<close>

fun str_contains :: "string \<Rightarrow> string \<Rightarrow> bool" where
  "str_contains sub [] = (sub = [])"
| "str_contains sub (c # s) = (prefix sub (c # s) \<or> str_contains sub s)"

text \<open>
  \<^verbatim>\<open>s.index(sub)\<close>: the lowest position at which \<^verbatim>\<open>sub\<close> starts; \<open>None\<close> stands
  for the \<^verbatim>\<open>ValueError\<close> it raises when there is none.
\<close>

fun str_index :: "string \<Rightarrow> string \<Rightarrow> nat option" where
  "str_index [] sub = (if sub = [] then Some 0 else None)"
| "str_index (c # s) sub =
     (if prefix sub (c # s) then Some 0 else map_option Suc (str_index s sub))"

text \<open>\<^verbatim>\<open>sep.join(parts)\<close>.\<close>

fun str_join :: "string \<Rightarrow> string list \<Rightarrow> string" where
  "str_join sep [] = []"
| "str_join sep [p] = p"
| "str_join sep (p # q # ps) = p @ sep @ str_join sep (q # ps)"

text \<open>Iterating over a string yields its characters as one-character strings.\<close>

definition chars :: "string \<Rightarrow> string list" where
  "chars s = map (\<lambda>c. [c]) s"

text \<open>\<^verbatim>\<open>xs[i]\<close> for an index that is not negative.\<close>

definition getitem :: "'a list \<Rightarrow> nat \<Rightarrow> error + 'a" where
  "getitem xs i = (if i < length xs then Inr (xs ! i) else Inl (IndexError ''index out of range''))"

subsection \<open>Constants\<close>

definition HONORS :: string where
  "HONORS = ''AKQJT''"

definition SUITS :: string where
  "SUITS = ''SHDC''"

definition SUIT_PIPS :: "string list" where
  "SUIT_PIPS =
     [[CHR 0xE2, CHR 0x99, CHR 0xA0],
      [CHR 0xE2, CHR 0x99, CHR 0xA1],
      [CHR 0xE2, CHR 0x99, CHR 0xA2],
      [CHR 0xE2, CHR 0x99, CHR 0xA3]]"

definition SUIT_PIPS_HTML :: "string list" where
  "SUIT_PIPS_HTML =
     [''&#9824;'',
      ''<span style=\"color: rgb(192, 22, 22);\">&#9829;</span>'',
      ''<span style=\"color: rgb(192, 22, 22);\">&#9830;</span>'',
      ''&#9827;'']"

subsection \<open>SuitHolding\<close>

record SuitHolding =
  suit :: string
  cards :: string

definition suit_error :: error where
  "suit_error = ValueError (''Suit must be one of '' @ SUITS)"

definition cards_error :: error where
  "cards_error =
     ValueError (''Cards must consist of '' @ HONORS @ ''98765432 or x'' @ '' in proper order'')"

definition validate_suit :: "string \<Rightarrow> error + string" where
  "validate_suit suit0 =
     (let suit1 = str_upper suit0
      in if \<not> str_contains suit1 SUITS then Inl suit_error else Inr suit1)"

text \<open>
  The loop of \<^verbatim>\<open>_validate_cards\<close>, with \<^verbatim>\<open>last_index\<close> as an argument. \<open>None\<close>
  is an exception raised inside the \<^verbatim>\<open>try\<close> block: by \<^verbatim>\<open>index\<close> for a character
  that is no card, or by the order test. The rest of the string is not looked at then.
\<close>

fun scan_cards :: "string \<Rightarrow> int \<Rightarrow> string \<Rightarrow> unit option" where
  "scan_cards valid_cards last_index [] = Some ()"
| "scan_cards valid_cards last_index (ch # rest) =
     (case str_index valid_cards [ch] of
        None \<Rightarrow> None
      | Some current_index \<Rightarrow>
          if int current_index < last_index
             \<or> (int current_index = last_index \<and> ch \<noteq> CHR ''x'')
          then None
          else scan_cards valid_cards (int current_index) rest)"

definition validate_cards :: "string \<Rightarrow> error + string" where
  "validate_cards cards0 =
     (let cards1 = str_replace (str_upper cards0) (CHR ''X'') ''x'';
          valid_cards = HONORS @ ''98765432x''
      in case scan_cards valid_cards (- 1) cards1 of
           None \<Rightarrow> Inl cards_error
         | Some _ \<Rightarrow> Inr cards1)"

text \<open>The constructor: the suit is validated first, then the cards.\<close>

definition SuitHolding_init :: "string \<Rightarrow> string \<Rightarrow> error + SuitHolding" where
  "SuitHolding_init suit0 cards0 =
     (case validate_suit suit0 of
        Inl e \<Rightarrow> Inl e
      | Inr s \<Rightarrow>
          (case validate_cards cards0 of
             Inl e \<Rightarrow> Inl e
           | Inr c \<Rightarrow> Inr \<lparr>suit = s, cards = c\<rparr>))"

definition suit_position :: "SuitHolding \<Rightarrow> error + nat" where
  "suit_position h =
     (case str_index SUITS (suit h) of
        None \<Rightarrow> Inl (ValueError ''substring not found'')
      | Some i \<Rightarrow> Inr i)"

definition suit_pip :: "SuitHolding \<Rightarrow> error + string" where
  "suit_pip h =
     (case suit_position h of Inl e \<Rightarrow> Inl e | Inr i \<Rightarrow> getitem SUIT_PIPS i)"

definition suit_pip_html :: "SuitHolding \<Rightarrow> error + string" where
  "suit_pip_html h =
     (case suit_position h of Inl e \<Rightarrow> Inl e | Inr i \<Rightarrow> getitem SUIT_PIPS_HTML i)"

text \<open>\<^verbatim>\<open>a or b\<close> on strings: \<^verbatim>\<open>a\<close> unless it is empty.\<close>

definition str_or :: "string \<Rightarrow> string \<Rightarrow> string" where
  "str_or a b = (if a \<noteq> [] then a else b)"

definition SuitHolding_format :: "SuitHolding \<Rightarrow> string \<Rightarrow> error + string" where
  "SuitHolding_format h format_spec =
     (case (if format_spec \<noteq> [] \<and> str_contains format_spec ''hH''
            then suit_pip_html h else suit_pip h) of
        Inl e \<Rightarrow> Inl e
      | Inr pip \<Rightarrow>
          Inr (pip @ '' '' @
               str_or (str_replace (str_join '' '' (chars (cards h))) (CHR ''T'') ''10'') ''--''))"

subsection \<open>Hand\<close>

record Hand =
  spades_holding :: SuitHolding
  hearts_holding :: SuitHolding
  diamonds_holding :: SuitHolding
  clubs_holding :: SuitHolding

text \<open>
  The four holdings are built in the order spades, hearts, diamonds, clubs, each with
  the one-character suit \<^verbatim>\<open>Constants.SUITS[i]\<close>; the first exception ends the
  construction.
\<close>

definition Hand_init :: "string \<Rightarrow> string \<Rightarrow> string \<Rightarrow> string \<Rightarrow> error + Hand" where
  "Hand_init spades0 hearts0 diamonds0 clubs0 =
     (case SuitHolding_init [SUITS ! 0] spades0 of
        Inl e \<Rightarrow> Inl e
      | Inr s \<Rightarrow>
     (case SuitHolding_init [SUITS ! 1] hearts0 of
        Inl e \<Rightarrow> Inl e
      | Inr h \<Rightarrow>
     (case SuitHolding_init [SUITS ! 2] diamonds0 of
        Inl e \<Rightarrow> Inl e
      | Inr d \<Rightarrow>
     (case SuitHolding_init [SUITS ! 3] clubs0 of
        Inl e \<Rightarrow> Inl e
      | Inr c \<Rightarrow>
          Inr \<lparr>spades_holding = s, hearts_holding = h,
               diamonds_holding = d, clubs_holding = c\<rparr>))))"

definition spades :: "Hand \<Rightarrow> string" where
  "spades hand = cards (spades_holding hand)"

definition hearts :: "Hand \<Rightarrow> string" where
  "hearts hand = cards (hearts_holding hand)"

definition diamonds :: "Hand \<Rightarrow> string" where
  "diamonds hand = cards (diamonds_holding hand)"

definition clubs :: "Hand \<Rightarrow> string" where
  "clubs hand = cards (clubs_holding hand)"

definition suits :: "Hand \<Rightarrow> SuitHolding list" where
  "suits hand = [spades_holding hand, hearts_holding hand, diamonds_holding hand, clubs_holding hand]"

text \<open>
  The generator handed to \<^verbatim>\<open>join\<close> formats the holdings one after the other; the
  first one that raises ends the call.
\<close>

fun format_each :: "SuitHolding list \<Rightarrow> string \<Rightarrow> error + string list" where
  "format_each [] format_spec = Inr []"
| "format_each (h # hs) format_spec =
     (case SuitHolding_format h format_spec of
        Inl e \<Rightarrow> Inl e
      | Inr r \<Rightarrow>
          (case format_each hs format_spec of
             Inl e \<Rightarrow> Inl e
           | Inr rs \<Rightarrow> Inr (r # rs)))"

definition Hand_format :: "Hand \<Rightarrow> string \<Rightarrow> error + string" where
  "Hand_format hand format_spec =
     (let joiner = (if format_spec \<noteq> [] \<and> str_contains format_spec ''Hh''
                    then ''&nbsp;&nbsp;'' else ''  '')
      in case format_each (suits hand) format_spec of
           Inl e \<Rightarrow> Inl e
         | Inr rs \<Rightarrow> Inr (str_join joiner rs))"

subsection \<open>The notions of the specification\<close>

text \<open>
  These definitions follow the words of the specification, not the code; the
  properties below compare them with the functions above.
\<close>

text \<open>The four canonical suit symbols.\<close>

definition suit_symbols :: "string list" where
  "suit_symbols = [''S'', ''H'', ''D'', ''C'']"

text \<open>
  The rank alphabet in its fixed order, the placeholder last, and the position of a
  rank in it.
\<close>

definition rank_alphabet :: string where
  "rank_alphabet = ''AKQJT98765432x''"

definition rank_of :: "char \<Rightarrow> nat option" where
  "rank_of c = map_of (zip rank_alphabet [0, 1, 2, 3, 4, 5, 6, 7, 8, 9, 10, 11, 12, 13]) c"

text \<open>The rank alphabet with the letters in either case.\<close>

definition any_case_rank_alphabet :: string where
  "any_case_rank_alphabet = rank_alphabet @ ''akqjtX''"

text \<open>
  \<open>may_follow a b\<close>: card \<open>b\<close> may stand right after card \<open>a\<close>. Its position is
  strictly greater, or it is equal and \<open>b\<close> is the placeholder.
\<close>

definition may_follow :: "char \<Rightarrow> char \<Rightarrow> bool" where
  "may_follow a b =
     (case rank_of a of
        None \<Rightarrow> False
      | Some i \<Rightarrow>
          (case rank_of b of
             None \<Rightarrow> False
           | Some j \<Rightarrow> i < j \<or> (i = j \<and> b = CHR ''x'')))"

definition descending :: "string \<Rightarrow> bool" where
  "descending n = successively may_follow n"

text \<open>The invariant of the cards of a holding.\<close>

definition well_formed :: "string \<Rightarrow> bool" where
  "well_formed n = (list_all (\<lambda>c. c \<in> set rank_alphabet) n \<and> descending n)"

text \<open>Case normalisation: ranks in upper case, the placeholder in lower case.\<close>

definition case_normalize :: "char \<Rightarrow> char" where
  "case_normalize c = (if c = CHR ''x'' \<or> c = CHR ''X'' then CHR ''x'' else char_upper c)"

definition canonical :: "string \<Rightarrow> string" where
  "canonical s = map case_normalize s"

text \<open>
  The three ways in which a card string is invalid: a character outside the alphabet
  (stated in the theorem itself), a rank other than the placeholder that occurs twice,
  and a card that outranks an earlier one.
\<close>

definition has_repeated_rank :: "string \<Rightarrow> bool" where
  "has_repeated_rank n = (\<exists>j<length n. \<exists>i<j. n ! i = n ! j \<and> n ! j \<noteq> CHR ''x'')"

definition outranks :: "char \<Rightarrow> char \<Rightarrow> bool" where
  "outranks a b =
     (case rank_of a of
        None \<Rightarrow> False
      | Some i \<Rightarrow> (case rank_of b of None \<Rightarrow> False | Some j \<Rightarrow> i < j))"

definition has_out_of_order :: "string \<Rightarrow> bool" where
  "has_out_of_order n = (\<exists>j<length n. \<exists>i<j. outranks (n ! j) (n ! i))"

text \<open>
  A violation at position \<open>i\<close> of a left-to-right scan: the character is no card, or
  it may not follow its predecessor. The first violation is the least such position.
\<close>

definition violation_at :: "string \<Rightarrow> nat \<Rightarrow> bool" where
  "violation_at n i =
     (n ! i \<notin> set rank_alphabet \<or> (0 < i \<and> \<not> may_follow (n ! (i - 1)) (n ! i)))"

definition first_violation :: "string \<Rightarrow> nat \<Rightarrow> bool" where
  "first_violation n i = (i < length n \<and> violation_at n i \<and> (\<forall>k<i. \<not> violation_at n k))"

text \<open>
  What the loop of \<^verbatim>\<open>_validate_cards\<close> lets through when \<^verbatim>\<open>last_index\<close> has
  the given value; used to state the invariant of the loop.
\<close>

definition admits :: "int \<Rightarrow> char \<Rightarrow> bool" where
  "admits last_index c =
     (case rank_of c of
        None \<Rightarrow> False
      | Some i \<Rightarrow> \<not> (int i < last_index \<or> (int i = last_index \<and> c \<noteq> CHR ''x'')))"

text \<open>
  The rendering of the cards: each card on its own with the ten written \<open>10\<close>, joined
  by single spaces, and \<open>--\<close> for no cards.
\<close>

definition expand_ten :: "char \<Rightarrow> string" where
  "expand_ten c = (if c = CHR ''T'' then ''10'' else [c])"

definition render_cards :: "string \<Rightarrow> string" where
  "render_cards cs = (if cs = [] then ''--'' else str_join '' '' (map expand_ten cs))"

text \<open>
  Mode selection: the directive that matches \<open>h\<close> in either case selects the HTML mode,
  no directive and any other value the plain mode.
\<close>

definition html_mode :: "string \<Rightarrow> bool" where
  "html_mode d = (d = ''h'' \<or> d = ''H'')"

text \<open>The red inline style that wraps the hearts and diamonds entries.\<close>

definition red_fragment :: "string \<Rightarrow> string" where
  "red_fragment x = ''<span style=\"color: rgb(192, 22, 22);\">'' @ x @ ''</span>''"

section \<open>Supporting lemmas\<close>

subsection \<open>Characters and the card scan\<close>

lemma char_upper_idem: "char_upper (char_upper c) = char_upper c"
  by (simp add: char_upper_def ascii_lowercase_def ascii_uppercase_def)

lemma char_upper_X: "char_upper c = CHR ''X'' \<longleftrightarrow> c = CHR ''x'' \<or> c = CHR ''X''"
  by (simp add: char_upper_def ascii_lowercase_def ascii_uppercase_def)

lemma index_rank: "str_index (HONORS @ ''98765432x'') [c] = rank_of c"
  by (simp add: HONORS_def rank_of_def rank_alphabet_def)

lemma rank_of_Some_iff: "rank_of c \<noteq> None \<longleftrightarrow> c \<in> set rank_alphabet"
  by (simp add: rank_of_def rank_alphabet_def)

lemma admits_start: "admits (- 1) c \<longleftrightarrow> c \<in> set rank_alphabet"
  using rank_of_Some_iff [of c] by (auto simp: admits_def split: option.splits)

lemma admits_follow: "rank_of a = Some i \<Longrightarrow> admits (int i) b \<longleftrightarrow> may_follow a b"
  by (auto simp: admits_def may_follow_def split: option.splits)

lemma scan_cards_iff:
  "scan_cards (HONORS @ ''98765432x'') l n = Some () \<longleftrightarrow>
     list_all (\<lambda>c. c \<in> set rank_alphabet) n \<and> successively may_follow n
     \<and> (n \<noteq> [] \<longrightarrow> admits l (hd n))"
proof (induction n arbitrary: l)
  case Nil
  show ?case by simp
next
  case (Cons c n)
  show ?case
  proof (cases "rank_of c")
    case None
    then have "\<not> admits l c" by (simp add: admits_def)
    with None show ?thesis by (simp add: index_rank)
  next
    case (Some i)
    have in_alpha: "c \<in> set rank_alphabet"
      using Some rank_of_Some_iff [of c] by simp
    show ?thesis
    proof (cases "admits l c")
      case False
      with Some show ?thesis by (simp add: index_rank admits_def)
    next
      case True
      with Some have "scan_cards (HONORS @ ''98765432x'') l (c # n)
                      = scan_cards (HONORS @ ''98765432x'') (int i) n"
        by (auto simp: index_rank admits_def)
      also have "\<dots> = Some () \<longleftrightarrow>
          list_all (\<lambda>c. c \<in> set rank_alphabet) n \<and> successively may_follow n
          \<and> (n \<noteq> [] \<longrightarrow> may_follow c (hd n))"
        using Cons.IH [of "int i"] admits_follow [OF Some] by simp
      finally show ?thesis
        using True in_alpha by (cases n) (auto simp: successively_Cons)
    qed
  qed
qed

lemma scan_cards_well_formed:
  "scan_cards (HONORS @ ''98765432x'') (- 1) n = Some () \<longleftrightarrow> well_formed n"
  unfolding scan_cards_iff well_formed_def descending_def
  by (cases n) (auto simp: admits_start)

lemma canonical_code: "str_replace (str_upper s) (CHR ''X'') ''x'' = canonical s"
  by (induction s) (auto simp: str_replace_def str_upper_def canonical_def case_normalize_def char_upper_X)

lemma validate_cards_iff:
  "validate_cards s = (if well_formed (canonical s) then Inr (canonical s) else Inl cards_error)"
  using scan_cards_well_formed [of "canonical s"]
  by (auto simp: validate_cards_def canonical_code Let_def split: option.splits)

lemma char_upper_x: "char_upper c = CHR ''x'' \<longleftrightarrow> False"
  by (simp add: char_upper_def ascii_lowercase_def ascii_uppercase_def)

lemma case_normalize_idem: "case_normalize (case_normalize c) = case_normalize c"
  by (simp add: case_normalize_def char_upper_idem char_upper_X char_upper_x)

lemma canonical_idem: "canonical (canonical s) = canonical s"
  by (simp add: canonical_def case_normalize_idem)

lemma str_upper_idem: "str_upper (str_upper s) = str_upper s"
  by (simp add: str_upper_def char_upper_idem)

lemma any_case_iff: "c \<in> set any_case_rank_alphabet \<longleftrightarrow> case_normalize c \<in> set rank_alphabet"
  by (simp add: any_case_rank_alphabet_def rank_alphabet_def case_normalize_def
      char_upper_def ascii_lowercase_def ascii_uppercase_def)

lemma list_all_canonical:
  "list_all (\<lambda>c. c \<in> set rank_alphabet) (canonical s)
   \<longleftrightarrow> list_all (\<lambda>c. c \<in> set any_case_rank_alphabet) s"
  by (simp add: canonical_def list_all_iff any_case_iff)

lemma transp_may_follow: "transp may_follow"
  by (auto simp: transp_def may_follow_def split: option.splits)

lemma may_follow_refl: "may_follow a a \<Longrightarrow> a = CHR ''x''"
  by (auto simp: may_follow_def split: option.splits)

lemma may_follow_outranks: "may_follow a b \<Longrightarrow> \<not> outranks b a"
  by (auto simp: may_follow_def outranks_def split: option.splits)

lemma well_formed_pairs:
  assumes "well_formed n" "i < j" "j < length n"
  shows "may_follow (n ! i) (n ! j)"
proof -
  from assms(1) have "sorted_wrt may_follow n"
    by (simp add: well_formed_def descending_def successively_conv_sorted_wrt [OF transp_may_follow])
  with assms(2,3) show ?thesis by (simp add: sorted_wrt_iff_nth_less)
qed

lemma well_formed_no_repeat: "well_formed n \<Longrightarrow> \<not> has_repeated_rank n"
  unfolding has_repeated_rank_def
  using well_formed_pairs may_follow_refl by (metis)

lemma well_formed_in_order: "well_formed n \<Longrightarrow> \<not> has_out_of_order n"
  unfolding has_out_of_order_def
  using well_formed_pairs may_follow_outranks by blast

lemma well_formed_iff_no_violation:
  "well_formed n \<longleftrightarrow> (\<forall>i<length n. \<not> violation_at n i)"
proof
  assume wf: "well_formed n"
  show "\<forall>i<length n. \<not> violation_at n i"
  proof (intro allI impI)
    fix i assume i: "i < length n"
    from wf i have "n ! i \<in> set rank_alphabet"
      by (simp add: well_formed_def list_all_length)
    moreover have "may_follow (n ! (i - 1)) (n ! i)" if "0 < i"
      using well_formed_pairs [OF wf, of "i - 1" i] that i by simp
    ultimately show "\<not> violation_at n i"
      by (auto simp: violation_at_def)
  qed
next
  assume nv: "\<forall>i<length n. \<not> violation_at n i"
  have "list_all (\<lambda>c. c \<in> set rank_alphabet) n"
    using nv by (auto simp: list_all_length violation_at_def)
  moreover have "successively may_follow n"
    unfolding successively_conv_nth
  proof (intro allI impI)
    fix i assume "Suc i < length n"
    with nv have "\<not> violation_at n (Suc i)" by blast
    then show "may_follow (n ! i) (n ! Suc i)" by (simp add: violation_at_def)
  qed
  ultimately show "well_formed n" by (simp add: well_formed_def descending_def)
qed

lemma ill_formed_first_violation:
  assumes "\<not> well_formed n"
  shows "\<exists>i. first_violation n i"
proof -
  from assms have "\<exists>i. i < length n \<and> violation_at n i"
    by (simp add: well_formed_iff_no_violation)
  then obtain i where "i < length n \<and> violation_at n i"
    and least: "\<forall>k<i. \<not> (k < length n \<and> violation_at n k)"
    using exists_least_iff [of "\<lambda>i. i < length n \<and> violation_at n i"] by blast
  then show ?thesis by (auto simp: first_violation_def)
qed

lemma before_first_violation:
  assumes "first_violation n i"
  shows "well_formed (take i n)"
  unfolding well_formed_iff_no_violation
proof (intro allI impI)
  fix k assume "k < length (take i n)"
  then have k: "k < i" "k < length n" by simp_all
  with assms have "\<not> violation_at n k" by (simp add: first_violation_def)
  moreover have "take i n ! k = n ! k" "0 < k \<Longrightarrow> take i n ! (k - 1) = n ! (k - 1)"
    using k by simp_all
  ultimately show "\<not> violation_at (take i n) k"
    by (cases "k = 0") (auto simp: violation_at_def)
qed

lemma at_first_violation:
  assumes "first_violation n i"
  shows "\<not> well_formed (take (Suc i) n @ rest)"
proof -
  from assms have i: "i < length n" and v: "violation_at n i"
    by (simp_all add: first_violation_def)
  let ?m = "take (Suc i) n @ rest"
  have "?m ! i = n ! i" "0 < i \<Longrightarrow> ?m ! (i - 1) = n ! (i - 1)"
    using i by (auto simp: nth_append)
  with v have "violation_at ?m i" by (auto simp: violation_at_def)
  moreover have "i < length ?m" using i by simp
  ultimately show ?thesis unfolding well_formed_iff_no_violation by blast
qed

lemma canonical_take: "canonical (take i s) = take i (canonical s)"
  by (simp add: canonical_def take_map)

lemma canonical_append: "canonical (a @ b) = canonical a @ canonical b"
  by (simp add: canonical_def)

subsection \<open>Suit positions and the rendering of cards\<close>

lemma str_contains_sublist: "str_contains sub s \<longleftrightarrow> sublist sub s"
  by (induction s) (simp_all add: sublist_Cons_right)

lemma str_contains_index:
  "str_contains sub s \<Longrightarrow> s \<noteq> [] \<Longrightarrow> \<exists>i<length s. str_index s sub = Some i"
proof (induction s)
  case Nil
  then show ?case by simp
next
  case (Cons c s)
  show ?case
  proof (cases "prefix sub (c # s)")
    case True
    then show ?thesis by simp
  next
    case False
    with Cons.prems have in_tail: "str_contains sub s" by simp
    have "s \<noteq> []"
    proof
      assume "s = []"
      with in_tail have "sub = []" by simp
      with False show False by simp
    qed
    with Cons.IH in_tail obtain i where "i < length s" "str_index s sub = Some i"
      by blast
    with False show ?thesis by simp
  qed
qed

lemma constructed_suit:
  assumes "SuitHolding_init su cs = Inr h"
  shows "suit h = str_upper su" "str_contains (suit h) SUITS"
    "cards h = canonical cs" "well_formed (cards h)"
proof -
  from assms obtain s c where s: "validate_suit su = Inr s"
    and c: "validate_cards cs = Inr c" and h: "h = \<lparr>suit = s, cards = c\<rparr>"
    by (auto simp: SuitHolding_init_def split: sum.splits)
  from s h show "suit h = str_upper su" "str_contains (suit h) SUITS"
    by (auto simp: validate_suit_def Let_def split: if_splits)
  from c h show "cards h = canonical cs" "well_formed (cards h)"
    by (auto simp: validate_cards_iff split: if_splits)
qed

lemma constructed_position:
  assumes "SuitHolding_init su cs = Inr h"
  shows "\<exists>i<4. str_index SUITS (suit h) = Some i"
proof -
  have "SUITS \<noteq> []" and len: "length SUITS = 4"
    by (simp_all add: SUITS_def)
  with str_contains_index [OF constructed_suit(2) [OF assms]]
  obtain i where "i < length SUITS" "str_index SUITS (suit h) = Some i"
    by blast
  with len show ?thesis by auto
qed

lemma str_join_Cons: "ps \<noteq> [] \<Longrightarrow> str_join sep (p # ps) = p @ sep @ str_join sep ps"
  by (cases ps) simp_all

lemma str_replace_append:
  "str_replace (a @ b) old new = str_replace a old new @ str_replace b old new"
  by (simp add: str_replace_def)

lemma replace_join_chars:
  "str_replace (str_join '' '' (chars cs)) (CHR ''T'') ''10'' = str_join '' '' (map expand_ten cs)"
proof (induction cs)
  case Nil
  show ?case by (simp add: chars_def str_replace_def)
next
  case (Cons c cs)
  show ?case
  proof (cases "cs = []")
    case True
    then show ?thesis by (simp add: chars_def str_replace_def expand_ten_def)
  next
    case False
    then have "str_join '' '' (chars (c # cs)) = [c] @ '' '' @ str_join '' '' (chars cs)"
      by (simp add: chars_def str_join_Cons)
    moreover have "str_join '' '' (map expand_ten (c # cs))
                   = expand_ten c @ '' '' @ str_join '' '' (map expand_ten cs)"
      using False by (simp add: str_join_Cons)
    moreover have "str_replace [c] (CHR ''T'') ''10'' = expand_ten c"
      and "str_replace '' '' (CHR ''T'') ''10'' = '' ''"
      by (simp_all add: str_replace_def expand_ten_def)
    ultimately show ?thesis
      using Cons.IH by (simp only: str_replace_append)
  qed
qed

lemma join_expand_empty: "str_join '' '' (map expand_ten cs) = [] \<longleftrightarrow> cs = []"
proof (cases cs)
  case Nil
  then show ?thesis by simp
next
  case (Cons c cs')
  then show ?thesis by (cases cs') (simp_all add: expand_ten_def)
qed

lemma card_list_rendering:
  "str_or (str_replace (str_join '' '' (chars cs)) (CHR ''T'') ''10'') ''--'' = render_cards cs"
  by (simp add: str_or_def replace_join_chars join_expand_empty render_cards_def)

lemma pip_of_position:
  assumes "str_index SUITS (suit h) = Some i" "i < 4"
  shows "suit_pip h = Inr (SUIT_PIPS ! i)" "suit_pip_html h = Inr (SUIT_PIPS_HTML ! i)"
proof -
  have "length SUIT_PIPS = 4" "length SUIT_PIPS_HTML = 4"
    by (simp_all add: SUIT_PIPS_def SUIT_PIPS_HTML_def)
  with assms show "suit_pip h = Inr (SUIT_PIPS ! i)"
    "suit_pip_html h = Inr (SUIT_PIPS_HTML ! i)"
    by (simp_all add: suit_pip_def suit_pip_html_def suit_position_def getitem_def)
qed

lemma format_plain:
  assumes "str_index SUITS (suit h) = Some i" "i < 4"
    and "\<not> (d \<noteq> [] \<and> str_contains d ''hH'')"
  shows "SuitHolding_format h d = Inr (SUIT_PIPS ! i @ '' '' @ render_cards (cards h))"
proof -
  have "(if d \<noteq> [] \<and> str_contains d ''hH'' then suit_pip_html h else suit_pip h)
        = Inr (SUIT_PIPS ! i)"
    using assms(3) pip_of_position(1) [OF assms(1,2)] by (simp only: if_False simp_thms)
  then show ?thesis
    unfolding SuitHolding_format_def by (simp only: card_list_rendering sum.case)
qed

lemma format_html:
  assumes "str_index SUITS (suit h) = Some i" "i < 4"
    and "d \<noteq> [] \<and> str_contains d ''hH''"
  shows "SuitHolding_format h d = Inr (SUIT_PIPS_HTML ! i @ '' '' @ render_cards (cards h))"
proof -
  have "(if d \<noteq> [] \<and> str_contains d ''hH'' then suit_pip_html h else suit_pip h)
        = Inr (SUIT_PIPS_HTML ! i)"
    using assms(3) pip_of_position(2) [OF assms(1,2)] by (simp only: if_True simp_thms)
  then show ?thesis
    unfolding SuitHolding_format_def by (simp only: card_list_rendering sum.case)
qed

lemma contains_hH: "str_contains d ''hH'' \<longleftrightarrow> d = [] \<or> d = ''h'' \<or> d = ''H'' \<or> d = ''hH''"
  by (auto simp: prefix_Cons)

lemma contains_Hh: "str_contains d ''Hh'' \<longleftrightarrow> d = [] \<or> d = ''h'' \<or> d = ''H'' \<or> d = ''Hh''"
  by (auto simp: prefix_Cons)

lemma directive_modes:
  "html_mode d \<Longrightarrow> d \<noteq> [] \<and> str_contains d ''hH''"
  "length d \<le> 1 \<and> \<not> html_mode d \<Longrightarrow> \<not> (d \<noteq> [] \<and> str_contains d ''hH'')"
  unfolding contains_hH html_mode_def by auto

subsection \<open>Suits, hands and directives\<close>

lemma validate_suit_sublist:
  "validate_suit su = (if sublist (str_upper su) SUITS then Inr (str_upper su) else Inl suit_error)"
  by (simp add: validate_suit_def str_contains_sublist)

lemma format_empty_suit:
  assumes "suit h = []"
  shows "str_index SUITS (suit h) = Some 0"
  using assms by (simp add: SUITS_def)

lemma fixed_suit_construction:
  assumes "su \<in> set suit_symbols"
  shows "SuitHolding_init su x
         = (if well_formed (canonical x) then Inr \<lparr>suit = su, cards = canonical x\<rparr>
            else Inl cards_error)"
proof -
  have "validate_suit ''S'' = Inr ''S''" "validate_suit ''H'' = Inr ''H''"
    "validate_suit ''D'' = Inr ''D''" "validate_suit ''C'' = Inr ''C''"
    by code_simp+
  with assms have "validate_suit su = Inr su"
    by (auto simp: suit_symbols_def)
  then show ?thesis
    by (simp add: SuitHolding_init_def validate_cards_iff)
qed

lemma fixed_suits:
  "[SUITS ! 0] = ''S''" "[SUITS ! 1] = ''H''" "[SUITS ! 2] = ''D''" "[SUITS ! 3] = ''C''"
  "''S'' \<in> set suit_symbols" "''H'' \<in> set suit_symbols"
  "''D'' \<in> set suit_symbols" "''C'' \<in> set suit_symbols"
  by (simp_all add: SUITS_def suit_symbols_def)

lemma Hand_init_well_formed:
  "Hand_init sp he di cl
   = (if well_formed (canonical sp) \<and> well_formed (canonical he)
         \<and> well_formed (canonical di) \<and> well_formed (canonical cl)
      then Inr \<lparr>spades_holding = \<lparr>suit = ''S'', cards = canonical sp\<rparr>,
                hearts_holding = \<lparr>suit = ''H'', cards = canonical he\<rparr>,
                diamonds_holding = \<lparr>suit = ''D'', cards = canonical di\<rparr>,
                clubs_holding = \<lparr>suit = ''C'', cards = canonical cl\<rparr>\<rparr>
      else Inl cards_error)"
  unfolding Hand_init_def fixed_suits(1-4)
  by (simp add: fixed_suit_construction fixed_suits(5-8))

lemma suit_positions:
  "str_index SUITS ''S'' = Some 0" "str_index SUITS ''H'' = Some 1"
  "str_index SUITS ''D'' = Some 2" "str_index SUITS ''C'' = Some 3"
  by code_simp+

lemma hand_directive:
  assumes "d \<noteq> ''hH''" "d \<noteq> ''Hh''"
  shows "(d \<noteq> [] \<and> str_contains d ''hH'') = html_mode d"
    and "(d \<noteq> [] \<and> str_contains d ''Hh'') = html_mode d"
  using assms unfolding contains_hH contains_Hh html_mode_def by auto

lemma format_in_mode:
  assumes "str_index SUITS (suit h) = Some i" "i < 4" "d \<noteq> ''hH''"
  shows "SuitHolding_format h d
         = Inr ((if html_mode d then SUIT_PIPS_HTML else SUIT_PIPS) ! i
                @ '' '' @ render_cards (cards h))"
proof (cases "html_mode d")
  case True
  then have "d \<noteq> [] \<and> str_contains d ''hH''" by (rule directive_modes(1))
  from format_html [OF assms(1,2) this] True show ?thesis by simp
next
  case False
  with assms(3) have "\<not> (d \<noteq> [] \<and> str_contains d ''hH'')"
    unfolding contains_hH html_mode_def by auto
  from format_plain [OF assms(1,2) this] False show ?thesis by simp
qed

text \<open>
  For every directive other than the two-character strings \<open>hH\<close> and \<open>Hh\<close>, the
  format of a hand is the formats of its four holdings under the same directive, in
  the order spades, hearts, diamonds, clubs, joined by the separator of the mode that
  the holdings are in.
\<close>

lemma hand_format_uniform:
  assumes "Hand_init sp he di cl = Inr hand" and "d \<noteq> ''hH''" and "d \<noteq> ''Hh''"
  shows "\<exists>r1 r2 r3 r4.
           SuitHolding_format (spades_holding hand) d = Inr r1
           \<and> SuitHolding_format (hearts_holding hand) d = Inr r2
           \<and> SuitHolding_format (diamonds_holding hand) d = Inr r3
           \<and> SuitHolding_format (clubs_holding hand) d = Inr r4
           \<and> r1 = (if html_mode d then SUIT_PIPS_HTML else SUIT_PIPS) ! 0
                  @ '' '' @ render_cards (canonical sp)
           \<and> r2 = (if html_mode d then SUIT_PIPS_HTML else SUIT_PIPS) ! 1
                  @ '' '' @ render_cards (canonical he)
           \<and> r3 = (if html_mode d then SUIT_PIPS_HTML else SUIT_PIPS) ! 2
                  @ '' '' @ render_cards (canonical di)
           \<and> r4 = (if html_mode d then SUIT_PIPS_HTML else SUIT_PIPS) ! 3
                  @ '' '' @ render_cards (canonical cl)
           \<and> Hand_format hand d
             = Inr (str_join (if html_mode d then ''&nbsp;&nbsp;'' else ''  '') [r1, r2, r3, r4])"
proof -
  from assms(1) have hand: "hand =
      \<lparr>spades_holding = \<lparr>suit = ''S'', cards = canonical sp\<rparr>,
       hearts_holding = \<lparr>suit = ''H'', cards = canonical he\<rparr>,
       diamonds_holding = \<lparr>suit = ''D'', cards = canonical di\<rparr>,
       clubs_holding = \<lparr>suit = ''C'', cards = canonical cl\<rparr>\<rparr>"
    by (auto simp: Hand_init_well_formed split: if_splits)
  let ?pips = "if html_mode d then SUIT_PIPS_HTML else SUIT_PIPS"
  have s: "SuitHolding_format (spades_holding hand) d
           = Inr (?pips ! 0 @ '' '' @ render_cards (canonical sp))"
    using format_in_mode [of "spades_holding hand" 0 d] assms(2)
    by (simp add: hand suit_positions)
  have h: "SuitHolding_format (hearts_holding hand) d
           = Inr (?pips ! 1 @ '' '' @ render_cards (canonical he))"
    using format_in_mode [of "hearts_holding hand" 1 d] assms(2)
    by (simp add: hand suit_positions)
  have dm: "SuitHolding_format (diamonds_holding hand) d
           = Inr (?pips ! 2 @ '' '' @ render_cards (canonical di))"
    using format_in_mode [of "diamonds_holding hand" 2 d] assms(2)
    by (simp add: hand suit_positions)
  have c: "SuitHolding_format (clubs_holding hand) d
           = Inr (?pips ! 3 @ '' '' @ render_cards (canonical cl))"
    using format_in_mode [of "clubs_holding hand" 3 d] assms(2)
    by (simp add: hand suit_positions)
  have "format_each (suits hand) d
        = Inr [?pips ! 0 @ '' '' @ render_cards (canonical sp),
               ?pips ! 1 @ '' '' @ render_cards (canonical he),
               ?pips ! 2 @ '' '' @ render_cards (canonical di),
               ?pips ! 3 @ '' '' @ render_cards (canonical cl)]"
    unfolding suits_def by (simp only: format_each.simps s h dm c sum.case)
  then have "Hand_format hand d
      = Inr (str_join (if html_mode d then ''&nbsp;&nbsp;'' else ''  '')
               [?pips ! 0 @ '' '' @ render_cards (canonical sp),
                ?pips ! 1 @ '' '' @ render_cards (canonical he),
                ?pips ! 2 @ '' '' @ render_cards (canonical di),
                ?pips ! 3 @ '' '' @ render_cards (canonical cl)])"
    unfolding Hand_format_def hand_directive(2) [OF assms(2,3)]
    by (simp only: Let_def sum.case)
  with s h dm c show ?thesis by blast
qed

lemma hand_format_uniform_example:
  "Hand_init ''ajt8'' ''aqt432'' ''a5'' ''7''
   = Inr \<lparr>spades_holding = \<lparr>suit = ''S'', cards = ''AJT8''\<rparr>,
          hearts_holding = \<lparr>suit = ''H'', cards = ''AQT432''\<rparr>,
          diamonds_holding = \<lparr>suit = ''D'', cards = ''A5''\<rparr>,
          clubs_holding = \<lparr>suit = ''C'', cards = ''7''\<rparr>\<rparr>
   \<and> Hand_format \<lparr>spades_holding = \<lparr>suit = ''S'', cards = ''AJT8''\<rparr>,
          hearts_holding = \<lparr>suit = ''H'', cards = ''AQT432''\<rparr>,
          diamonds_holding = \<lparr>suit = ''D'', cards = ''A5''\<rparr>,
          clubs_holding = \<lparr>suit = ''C'', cards = ''7''\<rparr>\<rparr> ''h''
     = Inr (''&#9824; A J 10 8'' @ ''&nbsp;&nbsp;''
            @ red_fragment ''&#9829;'' @ '' A Q 10 4 3 2'' @ ''&nbsp;&nbsp;''
            @ red_fragment ''&#9830;'' @ '' A 5'' @ ''&nbsp;&nbsp;''
            @ ''&#9827; 7'')"
proof -
  have c: "Hand_init ''ajt8'' ''aqt432'' ''a5'' ''7''
   = Inr \<lparr>spades_holding = \<lparr>suit = ''S'', cards = ''AJT8''\<rparr>,
          hearts_holding = \<lparr>suit = ''H'', cards = ''AQT432''\<rparr>,
          diamonds_holding = \<lparr>suit = ''D'', cards = ''A5''\<rparr>,
          clubs_holding = \<lparr>suit = ''C'', cards = ''7''\<rparr>\<rparr>"
    by code_simp
  have d: "''h'' \<noteq> ''hH''" "''h'' \<noteq> ''Hh''" by simp_all
  have m: "html_mode ''h''" by (simp add: html_mode_def)
  have r: "render_cards (canonical ''ajt8'') = ''A J 10 8''"
    "render_cards (canonical ''aqt432'') = ''A Q 10 4 3 2''"
    "render_cards (canonical ''a5'') = ''A 5''"
    "render_cards (canonical ''7'') = ''7''"
    by code_simp+
  have t: "SUIT_PIPS_HTML ! 0 = ''&#9824;''" "SUIT_PIPS_HTML ! 1 = red_fragment ''&#9829;''"
    "SUIT_PIPS_HTML ! 2 = red_fragment ''&#9830;''" "SUIT_PIPS_HTML ! 3 = ''&#9827;''"
    by (simp_all add: SUIT_PIPS_HTML_def red_fragment_def)
  from hand_format_uniform [OF c d] c m r t show ?thesis
    by auto
qed

section \<open>The properties of the specification\<close>

subsection \<open>Card validation\<close>

text \<open>
  C2. A card string made only of characters of the rank alphabet, in either case, whose
  ranks go strictly down in the fixed order, the placeholder \<open>x\<close> being allowed to repeat,
  is accepted by \<^verbatim>\<open>_validate_cards\<close>, and with a suit that passes, the constructor
  succeeds; the stored cards are the input with ranks in upper case and the placeholder
  in lower case.
\<close>

theorem valid_cards_accepted:
  assumes "list_all (\<lambda>c. c \<in> set any_case_rank_alphabet) cs"
    and "descending (canonical cs)"
    and "validate_suit su = Inr s"
  shows "validate_cards cs = Inr (canonical cs)
         \<and> SuitHolding_init su cs = Inr \<lparr>suit = s, cards = canonical cs\<rparr>"
proof -
  from assms(1,2) have "well_formed (canonical cs)"
    by (simp add: well_formed_def list_all_canonical)
  then have "validate_cards cs = Inr (canonical cs)"
    by (simp add: validate_cards_iff)
  with assms(3) show ?thesis
    by (simp add: SuitHolding_init_def)
qed

theorem valid_cards_accepted_witness:
  "list_all (\<lambda>c. c \<in> set any_case_rank_alphabet) ''aKt9xXx''
   \<and> descending (canonical ''aKt9xXx'')
   \<and> validate_suit ''h'' = Inr ''H''
   \<and> SuitHolding_init ''h'' ''aKt9xXx'' = Inr \<lparr>suit = ''H'', cards = ''AKT9xxx''\<rparr>"
proof -
  have a: "list_all (\<lambda>c. c \<in> set any_case_rank_alphabet) ''aKt9xXx''"
    by code_simp
  have c: "canonical ''aKt9xXx'' = ''AKT9xxx''"
    by code_simp
  have d: "descending (canonical ''aKt9xXx'')"
    by code_simp
  have s: "validate_suit ''h'' = Inr ''H''"
    by code_simp
  from valid_cards_accepted [OF a d s] a d s show ?thesis
    unfolding c by simp
qed

text \<open>
  C3. With a suit that passes, a card string that has a character outside the rank
  alphabet, or a rank other than the placeholder twice, or a later card that outranks
  an earlier one, makes the constructor fail with the invalid-cards error. The scan
  fails at the first violating character: the characters before it are accepted as a
  card string of their own, and the string up to it is rejected whatever follows.
\<close>

theorem invalid_cards_rejected:
  assumes "validate_suit su = Inr s"
    and "(\<exists>c\<in>set cs. c \<notin> set any_case_rank_alphabet)
         \<or> has_repeated_rank (canonical cs)
         \<or> has_out_of_order (canonical cs)"
  shows "validate_cards cs = Inl cards_error
         \<and> SuitHolding_init su cs = Inl cards_error
         \<and> (\<exists>i. first_violation (canonical cs) i
                \<and> validate_cards (take i cs) = Inr (take i (canonical cs))
                \<and> (\<forall>rest. validate_cards (take (Suc i) cs @ rest) = Inl cards_error
                          \<and> SuitHolding_init su (take (Suc i) cs @ rest) = Inl cards_error))"
proof -
  have ill: "\<not> well_formed (canonical cs)"
  proof
    assume wf: "well_formed (canonical cs)"
    then have "list_all (\<lambda>c. c \<in> set any_case_rank_alphabet) cs"
      by (simp add: well_formed_def list_all_canonical)
    then have "\<not> (\<exists>c\<in>set cs. c \<notin> set any_case_rank_alphabet)"
      by (simp add: list_all_iff)
    with assms(2) wf well_formed_no_repeat well_formed_in_order show False
      by blast
  qed
  then have cards: "validate_cards cs = Inl cards_error"
    by (simp add: validate_cards_iff)
  with assms(1) have whole: "SuitHolding_init su cs = Inl cards_error"
    by (simp add: SuitHolding_init_def)
  from ill obtain i where fv: "first_violation (canonical cs) i"
    using ill_formed_first_violation by blast
  have "validate_cards (take i cs) = Inr (take i (canonical cs))"
    using before_first_violation [OF fv]
    by (simp add: validate_cards_iff canonical_take)
  moreover have "validate_cards (take (Suc i) cs @ rest) = Inl cards_error" for rest
    using at_first_violation [OF fv, of "canonical rest"]
    by (simp add: validate_cards_iff canonical_take canonical_append)
  moreover have "SuitHolding_init su (take (Suc i) cs @ rest) = Inl cards_error" for rest
    using calculation(2) [of rest] assms(1) by (simp add: SuitHolding_init_def)
  ultimately show ?thesis using cards whole fv by blast
qed

theorem invalid_cards_rejected_witness:
  "validate_suit ''c'' = Inr ''C''
   \<and> has_out_of_order (canonical ''2A'')
   \<and> validate_cards ''2A'' = Inl cards_error
   \<and> SuitHolding_init ''c'' ''2A'' = Inl cards_error
   \<and> (\<exists>i. first_violation (canonical ''2A'') i
          \<and> validate_cards (take i ''2A'') = Inr (take i (canonical ''2A''))
          \<and> (\<forall>rest. validate_cards (take (Suc i) ''2A'' @ rest) = Inl cards_error
                    \<and> SuitHolding_init ''c'' (take (Suc i) ''2A'' @ rest) = Inl cards_error))"
proof -
  have s: "validate_suit ''c'' = Inr ''C''"
    by code_simp
  have b: "has_out_of_order (canonical ''2A'')"
    by code_simp
  from invalid_cards_rejected [OF s, of "''2A''"] s b show ?thesis
    by blast
qed

text \<open>
  C4. Building a holding again from the suit and the cards of a holding that was
  built gives the same cards (and the same holding).
\<close>

theorem reconstruction_idempotent:
  assumes "SuitHolding_init su cs = Inr h"
  shows "\<exists>h'. SuitHolding_init (suit h) (cards h) = Inr h' \<and> cards h' = cards h \<and> h' = h"
proof -
  from assms obtain s c where s: "validate_suit su = Inr s"
    and c: "validate_cards cs = Inr c" and h: "h = \<lparr>suit = s, cards = c\<rparr>"
    by (auto simp: SuitHolding_init_def split: sum.splits)
  from s have "s = str_upper su" "str_contains s SUITS"
    by (auto simp: validate_suit_def Let_def split: if_splits)
  then have s': "validate_suit s = Inr s"
    by (simp add: validate_suit_def str_upper_idem)
  from c have "c = canonical cs" "well_formed c"
    by (auto simp: validate_cards_iff split: if_splits)
  then have c': "validate_cards c = Inr c"
    by (simp add: validate_cards_iff canonical_idem)
  from s' c' h show ?thesis by (simp add: SuitHolding_init_def)
qed

theorem reconstruction_idempotent_witness:
  "SuitHolding_init ''s'' ''akXx'' = Inr \<lparr>suit = ''S'', cards = ''AKxx''\<rparr>
   \<and> SuitHolding_init ''S'' ''AKxx'' = Inr \<lparr>suit = ''S'', cards = ''AKxx''\<rparr>"
proof -
  have c: "SuitHolding_init ''s'' ''akXx'' = Inr \<lparr>suit = ''S'', cards = ''AKxx''\<rparr>"
    by code_simp
  from reconstruction_idempotent [OF c] c show ?thesis
    by simp
qed

subsection \<open>Formatting a holding\<close>

text \<open>
  C5. For a holding that was built, the plain format (no directive) is the entry of
  the four-element pictograph table at the position of the suit, a space, and the
  cards joined by single spaces with \<open>T\<close> written \<open>10\<close>, or \<open>--\<close> when there are no
  cards. In particular the holding built from \<open>s\<close> and \<open>AKQJT\<close> is formatted as the
  spade pictograph followed by \<open> A K Q J 10\<close>.
\<close>

theorem plain_format:
  assumes "SuitHolding_init su cs = Inr h"
  shows "length SUIT_PIPS = 4
         \<and> (\<exists>i<4. str_index SUITS (suit h) = Some i
                \<and> SuitHolding_format h '''' = Inr (SUIT_PIPS ! i @ '' '' @ render_cards (cards h)))
         \<and> (\<exists>h0. SuitHolding_init ''s'' ''AKQJT'' = Inr h0 \<and> cards h0 = ''AKQJT''
                \<and> SuitHolding_format h0 '''' = Inr (SUIT_PIPS ! 0 @ '' A K Q J 10''))"
proof -
  have "length SUIT_PIPS = 4" by (simp add: SUIT_PIPS_def)
  moreover from constructed_position [OF assms]
  obtain i where i: "i < 4" "str_index SUITS (suit h) = Some i" by blast
  then have "SuitHolding_format h '''' = Inr (SUIT_PIPS ! i @ '' '' @ render_cards (cards h))"
    by (simp add: format_plain)
  moreover have "SuitHolding_init ''s'' ''AKQJT'' = Inr \<lparr>suit = ''S'', cards = ''AKQJT''\<rparr>"
    and "SuitHolding_format \<lparr>suit = ''S'', cards = ''AKQJT''\<rparr> ''''
         = Inr (SUIT_PIPS ! 0 @ '' A K Q J 10'')"
    by code_simp+
  ultimately show ?thesis using i by auto
qed

theorem plain_format_witness:
  "SuitHolding_init ''d'' '''' = Inr \<lparr>suit = ''D'', cards = ''''\<rparr>
   \<and> SuitHolding_format \<lparr>suit = ''D'', cards = ''''\<rparr> '''' = Inr (SUIT_PIPS ! 2 @ '' --'')"
proof -
  have c: "SuitHolding_init ''d'' '''' = Inr \<lparr>suit = ''D'', cards = ''''\<rparr>"
    by code_simp
  have "str_index SUITS ''D'' = Some 2" by code_simp
  with plain_format [OF c] c show ?thesis
    by (auto simp: render_cards_def)
qed

text \<open>
  C6. For a holding that was built, the directive \<open>h\<close> or \<open>H\<close> selects the HTML
  format: the entry of the markup table at the position of the suit, then the same
  space and the same rendering of the cards as in the plain format. No directive and
  every other directive of one character give the plain format. In the markup table
  the hearts and diamonds entries are wrapped in the red span, the spades and clubs
  entries are not.
\<close>

theorem html_format:
  assumes "SuitHolding_init su cs = Inr h"
  shows "(\<exists>i<4. str_index SUITS (suit h) = Some i
           \<and> (\<forall>d. html_mode d \<longrightarrow>
                 SuitHolding_format h d
                 = Inr (SUIT_PIPS_HTML ! i @ '' '' @ render_cards (cards h)))
           \<and> (\<forall>d. length d \<le> 1 \<and> \<not> html_mode d \<longrightarrow>
                 SuitHolding_format h d
                 = Inr (SUIT_PIPS ! i @ '' '' @ render_cards (cards h))))
         \<and> SUIT_PIPS_HTML
           = [''&#9824;'', red_fragment ''&#9829;'', red_fragment ''&#9830;'', ''&#9827;'']"
proof -
  from constructed_position [OF assms]
  obtain i where i: "i < 4" "str_index SUITS (suit h) = Some i" by blast
  have "SuitHolding_format h d = Inr (SUIT_PIPS_HTML ! i @ '' '' @ render_cards (cards h))"
    if "html_mode d" for d
    using i directive_modes(1) [OF that] by (intro format_html)
  moreover
  have "SuitHolding_format h d = Inr (SUIT_PIPS ! i @ '' '' @ render_cards (cards h))"
    if "length d \<le> 1 \<and> \<not> html_mode d" for d
    using i directive_modes(2) [OF that] by (intro format_plain)
  moreover
  have "SUIT_PIPS_HTML
        = [''&#9824;'', red_fragment ''&#9829;'', red_fragment ''&#9830;'', ''&#9827;'']"
    by (simp add: SUIT_PIPS_HTML_def red_fragment_def)
  ultimately show ?thesis using i by blast
qed

theorem html_format_witness:
  "SuitHolding_init ''H'' ''xx'' = Inr \<lparr>suit = ''H'', cards = ''xx''\<rparr>
   \<and> html_mode ''h''
   \<and> SuitHolding_format \<lparr>suit = ''H'', cards = ''xx''\<rparr> ''h''
     = Inr (red_fragment ''&#9829;'' @ '' x x'')
   \<and> length ''z'' \<le> 1 \<and> \<not> html_mode ''z''
   \<and> SuitHolding_format \<lparr>suit = ''H'', cards = ''xx''\<rparr> ''z''
     = Inr (SUIT_PIPS ! 1 @ '' x x'')"
proof -
  have c: "SuitHolding_init ''H'' ''xx'' = Inr \<lparr>suit = ''H'', cards = ''xx''\<rparr>"
    by code_simp
  have p: "str_index SUITS ''H'' = Some 1" by code_simp
  have m: "html_mode ''h''" "length ''z'' \<le> 1 \<and> \<not> html_mode ''z''"
    by (simp_all add: html_mode_def)
  have r: "render_cards ''xx'' = ''x x''" by code_simp
  have t: "SUIT_PIPS_HTML ! 1 = red_fragment ''&#9829;''"
    by (simp add: SUIT_PIPS_HTML_def red_fragment_def)
  from html_format [OF c] p m c r t show ?thesis
    by auto
qed

subsection \<open>Suit validation\<close>

text \<open>
  C9. \<^verbatim>\<open>_validate_suit\<close> accepts exactly the inputs whose upper-case form is a
  contiguous part of \<open>SHDC\<close>, and stores that upper-case form; with cards that pass,
  the constructor then succeeds. The empty string, \<open>sh\<close> and \<open>dc\<close> are such inputs. A
  holding built with the empty suit is formatted with the first entry of the table,
  the spades pictograph.
\<close>

theorem substring_suits_accepted:
  "validate_suit su = (if sublist (str_upper su) SUITS then Inr (str_upper su) else Inl suit_error)
   \<and> (\<forall>cs c. sublist (str_upper su) SUITS \<and> validate_cards cs = Inr c \<longrightarrow>
          SuitHolding_init su cs = Inr \<lparr>suit = str_upper su, cards = c\<rparr>)
   \<and> sublist (str_upper '''') SUITS \<and> sublist (str_upper ''sh'') SUITS
   \<and> sublist (str_upper ''dc'') SUITS
   \<and> (\<forall>cs h. SuitHolding_init '''' cs = Inr h \<longrightarrow>
          suit h = ''''
          \<and> SuitHolding_format h '''' = Inr (SUIT_PIPS ! 0 @ '' '' @ render_cards (cards h))
          \<and> SuitHolding_format h ''h''
            = Inr (SUIT_PIPS_HTML ! 0 @ '' '' @ render_cards (cards h)))"
proof -
  have v: "validate_suit su
           = (if sublist (str_upper su) SUITS then Inr (str_upper su) else Inl suit_error)"
    by (rule validate_suit_sublist)
  have "SuitHolding_init su cs = Inr \<lparr>suit = str_upper su, cards = c\<rparr>"
    if "sublist (str_upper su) SUITS \<and> validate_cards cs = Inr c" for cs c
    using that by (simp add: SuitHolding_init_def validate_suit_sublist)
  moreover have "sublist (str_upper '''') SUITS" "sublist (str_upper ''sh'') SUITS"
    "sublist (str_upper ''dc'') SUITS"
    by code_simp+
  moreover have "suit h = ''''
      \<and> SuitHolding_format h '''' = Inr (SUIT_PIPS ! 0 @ '' '' @ render_cards (cards h))
      \<and> SuitHolding_format h ''h'' = Inr (SUIT_PIPS_HTML ! 0 @ '' '' @ render_cards (cards h))"
    if "SuitHolding_init '''' cs = Inr h" for cs h
  proof -
    from constructed_suit(1) [OF that] have e: "suit h = ''''"
      by (simp add: str_upper_def)
    then have p: "str_index SUITS (suit h) = Some 0"
      by (rule format_empty_suit)
    have "html_mode ''h''" by (simp add: html_mode_def)
    then have "''h'' \<noteq> [] \<and> str_contains ''h'' ''hH''"
      by (rule directive_modes(1))
    with e p show ?thesis
      by (simp add: format_plain format_html)
  qed
  ultimately show ?thesis using v by blast
qed

theorem substring_suits_accepted_witness:
  "SuitHolding_init ''sh'' ''ak'' = Inr \<lparr>suit = ''SH'', cards = ''AK''\<rparr>
   \<and> SuitHolding_init '''' ''ak'' = Inr \<lparr>suit = '''', cards = ''AK''\<rparr>
   \<and> SuitHolding_format \<lparr>suit = '''', cards = ''AK''\<rparr> '''' = Inr (SUIT_PIPS ! 0 @ '' A K'')"
proof -
  have c: "validate_cards ''ak'' = Inr ''AK''" by code_simp
  have u: "str_upper ''sh'' = ''SH''" "str_upper '''' = ''''" by code_simp+
  have r: "render_cards ''AK'' = ''A K''" by code_simp
  note t = substring_suits_accepted
  from t [of "''sh''"] c u have a: "SuitHolding_init ''sh'' ''ak'' = Inr \<lparr>suit = ''SH'', cards = ''AK''\<rparr>"
    by auto
  from t [of "''''"] c u have b: "SuitHolding_init '''' ''ak'' = Inr \<lparr>suit = '''', cards = ''AK''\<rparr>"
    by auto
  with t [of "''''"] r
  have "SuitHolding_format \<lparr>suit = '''', cards = ''AK''\<rparr> '''' = Inr (SUIT_PIPS ! 0 @ '' A K'')"
    by auto
  with a b show ?thesis by simp
qed

text \<open>
  C1. A suit whose upper-case form is one of \<open>S\<close>, \<open>H\<close>, \<open>D\<close>, \<open>C\<close> is to be accepted
  and every other suit rejected with the invalid-suit error. The test
  \<^verbatim>\<open>suit not in Constants.SUITS\<close> is a substring test, so the constructor also
  builds a holding from the empty suit and from \<open>sh\<close>, neither of which is a suit
  symbol.
\<close>

theorem substring_suit_failing_input:
  "str_upper '''' \<notin> set suit_symbols
   \<and> SuitHolding_init '''' ''AK'' = Inr \<lparr>suit = '''', cards = ''AK''\<rparr>
   \<and> str_upper ''sh'' \<notin> set suit_symbols
   \<and> SuitHolding_init ''sh'' ''AK'' = Inr \<lparr>suit = ''SH'', cards = ''AK''\<rparr>"
  by code_simp

subsection \<open>Hands\<close>

text \<open>
  C8. \<^verbatim>\<open>Hand\<close> is built exactly when each of the four card strings builds a
  holding with its fixed suit \<open>S\<close>, \<open>H\<close>, \<open>D\<close>, \<open>C\<close>, which for each string depends on
  that string alone: it has to be well formed. Nothing relates one suit to another.
  When the construction fails, the error is the invalid-cards error of the first
  holding, in that order, that fails.
\<close>

theorem hand_construction:
  "((\<exists>hand. Hand_init sp he di cl = Inr hand) \<longleftrightarrow>
      (\<exists>a. SuitHolding_init ''S'' sp = Inr a) \<and> (\<exists>b. SuitHolding_init ''H'' he = Inr b)
      \<and> (\<exists>c. SuitHolding_init ''D'' di = Inr c) \<and> (\<exists>d. SuitHolding_init ''C'' cl = Inr d))
   \<and> (\<forall>su\<in>set suit_symbols. \<forall>x.
         SuitHolding_init su x
         = (if well_formed (canonical x) then Inr \<lparr>suit = su, cards = canonical x\<rparr>
            else Inl cards_error))
   \<and> (\<forall>hand. Hand_init sp he di cl = Inr hand \<longrightarrow>
         suits hand = [\<lparr>suit = ''S'', cards = canonical sp\<rparr>,
                       \<lparr>suit = ''H'', cards = canonical he\<rparr>,
                       \<lparr>suit = ''D'', cards = canonical di\<rparr>,
                       \<lparr>suit = ''C'', cards = canonical cl\<rparr>])
   \<and> (\<forall>e. Hand_init sp he di cl = Inl e \<longrightarrow>
         e = cards_error
         \<and> find isl [SuitHolding_init ''S'' sp, SuitHolding_init ''H'' he,
                     SuitHolding_init ''D'' di, SuitHolding_init ''C'' cl]
           = Some (Inl e))"
proof -
  have "(\<exists>hand. Hand_init sp he di cl = Inr hand) \<longleftrightarrow>
      (\<exists>a. SuitHolding_init ''S'' sp = Inr a) \<and> (\<exists>b. SuitHolding_init ''H'' he = Inr b)
      \<and> (\<exists>c. SuitHolding_init ''D'' di = Inr c) \<and> (\<exists>d. SuitHolding_init ''C'' cl = Inr d)"
    by (simp add: Hand_init_well_formed fixed_suit_construction fixed_suits(5-8))
  moreover have "\<forall>su\<in>set suit_symbols. \<forall>x.
         SuitHolding_init su x
         = (if well_formed (canonical x) then Inr \<lparr>suit = su, cards = canonical x\<rparr>
            else Inl cards_error)"
    using fixed_suit_construction by blast
  moreover have "suits hand = [\<lparr>suit = ''S'', cards = canonical sp\<rparr>,
                       \<lparr>suit = ''H'', cards = canonical he\<rparr>,
                       \<lparr>suit = ''D'', cards = canonical di\<rparr>,
                       \<lparr>suit = ''C'', cards = canonical cl\<rparr>]"
    if "Hand_init sp he di cl = Inr hand" for hand
    using that by (auto simp: Hand_init_well_formed suits_def split: if_splits)
  moreover have "e = cards_error
         \<and> find isl [SuitHolding_init ''S'' sp, SuitHolding_init ''H'' he,
                     SuitHolding_init ''D'' di, SuitHolding_init ''C'' cl]
           = Some (Inl e)"
    if "Hand_init sp he di cl = Inl e" for e
    using that
    by (auto simp: Hand_init_well_formed fixed_suit_construction fixed_suits(5-8)
        split: if_splits)
  ultimately show ?thesis by blast
qed

theorem hand_construction_witness:
  "(\<exists>hand. Hand_init ''AKQ'' ''AKQ'' ''AKQ'' ''AKQJT98765432x'' = Inr hand)
   \<and> Hand_init ''AKQ'' ''AA'' ''2A'' '''' = Inl cards_error"
proof -
  have "SuitHolding_init ''S'' ''AKQ'' = Inr \<lparr>suit = ''S'', cards = ''AKQ''\<rparr>"
    "SuitHolding_init ''H'' ''AKQ'' = Inr \<lparr>suit = ''H'', cards = ''AKQ''\<rparr>"
    "SuitHolding_init ''D'' ''AKQ'' = Inr \<lparr>suit = ''D'', cards = ''AKQ''\<rparr>"
    "SuitHolding_init ''C'' ''AKQJT98765432x'' = Inr \<lparr>suit = ''C'', cards = ''AKQJT98765432x''\<rparr>"
    by code_simp+
  with hand_construction [of "''AKQ''" "''AKQ''" "''AKQ''" "''AKQJT98765432x''"]
  have good: "\<exists>hand. Hand_init ''AKQ'' ''AKQ'' ''AKQ'' ''AKQJT98765432x'' = Inr hand"
    by simp
  note bad = hand_construction [of "''AKQ''" "''AA''" "''2A''" "''''"]
  have "SuitHolding_init ''H'' ''AA'' = Inl cards_error"
    by code_simp
  with bad have "\<not> (\<exists>hand. Hand_init ''AKQ'' ''AA'' ''2A'' '''' = Inr hand)"
    by simp
  then obtain e where "Hand_init ''AKQ'' ''AA'' ''2A'' '''' = Inl e"
    by (cases "Hand_init ''AKQ'' ''AA'' ''2A'' ''''") auto
  with bad have "Hand_init ''AKQ'' ''AA'' ''2A'' '''' = Inl cards_error"
    by blast
  with good show ?thesis by simp
qed

text \<open>
  C7. The format of a hand is to be the formats of its spades, hearts, diamonds and
  clubs holdings under the same directive, in this order, joined by two spaces in the
  plain mode and by \<open>&nbsp;&nbsp;\<close> in the HTML mode, for every directive. A hand
  tests the directive against \<open>Hh\<close> where a holding tests it against \<open>hH\<close>. Under
  the directive \<open>Hh\<close>, which does not select the HTML mode, every holding of the hand
  built from \<open>A\<close>, \<open>K\<close>, \<open>Q\<close>, \<open>J\<close> is rendered plain, and yet the renderings are
  joined by \<open>&nbsp;&nbsp;\<close>, not by two spaces.
\<close>

theorem hand_format_mixed_modes:
  "Hand_init ''A'' ''K'' ''Q'' ''J''
   = Inr \<lparr>spades_holding = \<lparr>suit = ''S'', cards = ''A''\<rparr>,
          hearts_holding = \<lparr>suit = ''H'', cards = ''K''\<rparr>,
          diamonds_holding = \<lparr>suit = ''D'', cards = ''Q''\<rparr>,
          clubs_holding = \<lparr>suit = ''C'', cards = ''J''\<rparr>\<rparr>
   \<and> \<not> html_mode ''Hh''
   \<and> SuitHolding_format \<lparr>suit = ''S'', cards = ''A''\<rparr> ''Hh'' = Inr (SUIT_PIPS ! 0 @ '' A'')
   \<and> SuitHolding_format \<lparr>suit = ''H'', cards = ''K''\<rparr> ''Hh'' = Inr (SUIT_PIPS ! 1 @ '' K'')
   \<and> SuitHolding_format \<lparr>suit = ''D'', cards = ''Q''\<rparr> ''Hh'' = Inr (SUIT_PIPS ! 2 @ '' Q'')
   \<and> SuitHolding_format \<lparr>suit = ''C'', cards = ''J''\<rparr> ''Hh'' = Inr (SUIT_PIPS ! 3 @ '' J'')
   \<and> Hand_format \<lparr>spades_holding = \<lparr>suit = ''S'', cards = ''A''\<rparr>,
          hearts_holding = \<lparr>suit = ''H'', cards = ''K''\<rparr>,
          diamonds_holding = \<lparr>suit = ''D'', cards = ''Q''\<rparr>,
          clubs_holding = \<lparr>suit = ''C'', cards = ''J''\<rparr>\<rparr> ''Hh''
     = Inr (str_join ''&nbsp;&nbsp;''
              [SUIT_PIPS ! 0 @ '' A'', SUIT_PIPS ! 1 @ '' K'',
               SUIT_PIPS ! 2 @ '' Q'', SUIT_PIPS ! 3 @ '' J''])
   \<and> Hand_format \<lparr>spades_holding = \<lparr>suit = ''S'', cards = ''A''\<rparr>,
          hearts_holding = \<lparr>suit = ''H'', cards = ''K''\<rparr>,
          diamonds_holding = \<lparr>suit = ''D'', cards = ''Q''\<rparr>,
          clubs_holding = \<lparr>suit = ''C'', cards = ''J''\<rparr>\<rparr> ''Hh''
     \<noteq> Inr (str_join (if html_mode ''Hh'' then ''&nbsp;&nbsp;'' else ''  '')
              [SUIT_PIPS ! 0 @ '' A'', SUIT_PIPS ! 1 @ '' K'',
               SUIT_PIPS ! 2 @ '' Q'', SUIT_PIPS ! 3 @ '' J''])"
  by code_simp

text \<open>
  C10. The directive \<open>hH\<close> is to select the HTML mode for a holding and for a hand
  alike, and every other directive longer than one character the plain mode. A holding
  tests the directive against \<open>hH\<close>, a hand against \<open>Hh\<close>: under \<open>hH\<close> the holdings
  of a hand are in HTML but joined by two spaces, and under \<open>Hh\<close> they are plain but
  joined by \<open>&nbsp;&nbsp;\<close>.
\<close>

theorem two_character_directives:
  "SuitHolding_format \<lparr>suit = ''S'', cards = ''A''\<rparr> ''hH'' = Inr (SUIT_PIPS_HTML ! 0 @ '' A'')
   \<and> SuitHolding_format \<lparr>suit = ''S'', cards = ''A''\<rparr> ''Hh'' = Inr (SUIT_PIPS ! 0 @ '' A'')
   \<and> Hand_format \<lparr>spades_holding = \<lparr>suit = ''S'', cards = ''A''\<rparr>,
          hearts_holding = \<lparr>suit = ''H'', cards = ''K''\<rparr>,
          diamonds_holding = \<lparr>suit = ''D'', cards = ''Q''\<rparr>,
          clubs_holding = \<lparr>suit = ''C'', cards = ''J''\<rparr>\<rparr> ''hH''
     = Inr (str_join ''  ''
              [SUIT_PIPS_HTML ! 0 @ '' A'', SUIT_PIPS_HTML ! 1 @ '' K'',
               SUIT_PIPS_HTML ! 2 @ '' Q'', SUIT_PIPS_HTML ! 3 @ '' J''])
   \<and> Hand_format \<lparr>spades_holding = \<lparr>suit = ''S'', cards = ''A''\<rparr>,
          hearts_holding = \<lparr>suit = ''H'', cards = ''K''\<rparr>,
          diamonds_holding = \<lparr>suit = ''D'', cards = ''Q''\<rparr>,
          clubs_holding = \<lparr>suit = ''C'', cards = ''J''\<rparr>\<rparr> ''Hh''
     = Inr (str_join ''&nbsp;&nbsp;''
              [SUIT_PIPS ! 0 @ '' A'', SUIT_PIPS ! 1 @ '' K'',
               SUIT_PIPS ! 2 @ '' Q'', SUIT_PIPS ! 3 @ '' J''])"
  by code_simp

end
